theory Spec2Isabelle
  imports
    Main
    "HOL-Library.Word"
    "HOL-Library.Multiset"
    "HOL-Library.Product_Lexorder"
    "HOL-Library.List_Lexorder"
begin

unbundle bit_operations_syntax

section \<open>Data model of the asset VM (vms/avm/vm.go)\<close>

text \<open>
  An \<open>ids.ID\<close> is a 32-byte array that is compared bytewise; the model takes the
  big-endian value of the array, so that the order on \<open>nat\<close> is \<open>bytes.Compare\<close>.
\<close>

type_synonym ID = nat
type_synonym ShortID = nat
type_synonym uint32 = "32 word"
type_synonym uint64 = "64 word"
type_synonym bytes = "8 word list"
type_synonym PrivateKey = nat

text \<open>
  The errors of the package that the modelled functions return.  \<open>errWantToSpend\<close> is
  the \<open>fmt.Errorf("want to spend %d of asset %s but only have %d", ...)\<close> of \<open>Spend\<close>,
  with its three arguments; \<open>errExternal\<close> stands for an error handed through from a
  collaborator (parser, database, feature extension); \<open>panicIndex\<close> is Go's run-time
  panic of an index out of range.
\<close>

datatype error =
    errIncompatibleFx
  | errUnknownFx
  | errGenesisAssetMustHaveState
  | errBootstrapping
  | errInsufficientFunds
  | errMissingUTXO
  | errInvalidUTXO
  | errAssetIDMismatch
  | errSpendOverflow
  | errAddressesCantMintAsset
  | errOverflow
  | errWantToSpend uint64 ID uint64
  | errExternal nat
  | panicIndex

text \<open>
  Modelled from the spec: \<open>choices.Status\<close> with its predicates \<open>Decided\<close> and
  \<open>Fetched\<close> (package snow/choices is not among the sources).  The spec gives the
  lifecycle Unknown, Processing, then Accepted or Rejected; a status is decided when it
  is Accepted or Rejected, and fetched (``at least known'') when it is Processing or
  decided.
\<close>

datatype Status = Unknown | Processing | Rejected | Accepted

fun Decided :: "Status \<Rightarrow> bool" where
  "Decided Rejected = True"
| "Decided Accepted = True"
| "Decided _ = False"

fun Fetched :: "Status \<Rightarrow> bool" where
  "Fetched Processing = True"
| "Fetched s = Decided s"

record UTXOID =
  TxID :: ID
  OutputIndex :: uint32

record OutputOwners =
  Locktime :: uint64
  Threshold :: uint32
  Addrs :: "ShortID list"

text \<open>
  The dynamic types behind the \<open>verify.Verifiable\<close> interface values that the
  functions inspect with type assertions.
\<close>

datatype Output =
    TransferOutput uint64 OutputOwners
  | MintOutput OutputOwners
  | OtherOutput nat

datatype Input =
    TransferInput uint64 "uint32 list"
  | SecpInput "uint32 list"
  | OtherInput nat

record UTXO =
  utxo_UTXOID :: UTXOID
  Asset :: ID
  Out :: Output

record InitialState =
  FxIndex :: uint32
  Outs :: "Output list"

datatype UnsignedTx =
    CreateAssetTx "InitialState list"
  | OtherTx nat

record TransferableInput =
  in_UTXOID :: UTXOID
  in_Asset :: ID
  In :: Input

text \<open>
  A credential or operation behind \<open>verify.Verifiable\<close>: \<open>reflect.TypeOf\<close> of the
  value, and its content.
\<close>

record Verifiable =
  TypeOf :: nat
  content :: bytes

text \<open>A registered feature extension, as far as \<open>verifyTransferOfUTXO\<close> calls it.\<close>

record Fx =
  VerifyTransfer :: "UnsignedTx \<Rightarrow> Input \<Rightarrow> Verifiable \<Rightarrow> Output \<Rightarrow> error option"

text \<open>
  What \<open>getUTXO\<close>, \<open>getFx\<close> and \<open>verifyFxUsage\<close> read of the VM: the committed
  state, the registry of credential kinds, and, for a \<open>UniqueTx\<close> built from a
  transaction ID alone, its verification result, status, outputs and payload.  These
  live in files that are not among the sources and are taken as they are.
\<close>

record Chain =
  InputID :: "UTXOID \<Rightarrow> ID"
  state_GetUTXO :: "ID \<Rightarrow> error + UTXO"
  verifyWithoutCacheWrites :: "ID \<Rightarrow> error option"
  tx_Status :: "ID \<Rightarrow> Status"
  tx_UTXOs :: "ID \<Rightarrow> UTXO list"
  tx_UnsignedTx :: "ID \<Rightarrow> UnsignedTx"
  typeToFxIndex :: "nat \<rightharpoonup> nat"
  fxs :: "Fx list"

section \<open>UTXO resolution\<close>

text \<open>
  \<open>VM.getUTXO\<close>.  \<open>uint32(len(parentUTXOs))\<close> truncates the length; \<open>int\<close> has 64
  bits, so \<open>int(inputIndex)\<close> is the zero extension of the index.  The indexing of the
  last line panics in Go when the index is not below the length.
\<close>

definition getUTXO :: "Chain \<Rightarrow> UTXOID \<Rightarrow> error + UTXO" where
  "getUTXO vm utxoID =
    (let inputID = InputID vm utxoID in
     case state_GetUTXO vm inputID of
       Inr utxo \<Rightarrow> Inr utxo
     | Inl _ \<Rightarrow>
        (let inputTx = TxID utxoID; inputIndex = OutputIndex utxoID in
         case verifyWithoutCacheWrites vm inputTx of
           Some _ \<Rightarrow> Inl errMissingUTXO
         | None \<Rightarrow>
            if Decided (tx_Status vm inputTx) then Inl errMissingUTXO
            else
              (let parentUTXOs = tx_UTXOs vm inputTx in
               if (word_of_nat (length parentUTXOs) :: uint32) \<le> inputIndex
                  \<or> sint (ucast inputIndex :: 64 word) < 0
               then Inl errInvalidUTXO
               else if unat inputIndex < length parentUTXOs
                    then Inr (parentUTXOs ! unat inputIndex)
                    else Inl panicIndex)))"


section \<open>Asset capability cache and extension dispatch\<close>

text \<open>
  Modelled from the spec: \<open>ids.BitSet\<close> (package ids is not among the sources), the
  ``bitset of supported extension indices'' held in one 64-bit word.  A shift by 64 or
  more gives 0 in Go, as \<open>push_bit\<close> does on a word.
\<close>

type_synonym BitSet = uint64

definition BitSet_Add :: "BitSet \<Rightarrow> nat \<Rightarrow> BitSet" where
  "BitSet_Add bs i = bs OR push_bit i 1"

definition BitSet_Contains :: "BitSet \<Rightarrow> nat \<Rightarrow> bool" where
  "BitSet_Contains bs i = (bs AND push_bit i 1 \<noteq> 0)"

text \<open>
  Modelled from the spec: \<open>cache.LRU\<close> (package cache is not among the sources), a
  cache of fixed capacity with least-recently-used eviction.  The entries are kept
  oldest first; a hit and a write move the entry to the young end; a write that makes
  the cache longer than its size drops entries from the old end.
\<close>

record LRU =
  entries :: "(ID \<times> BitSet) list"
  Size :: nat

definition LRU_Get :: "LRU \<Rightarrow> ID \<Rightarrow> BitSet option \<times> LRU" where
  "LRU_Get c k =
    (case map_of (entries c) k of
       None \<Rightarrow> (None, c)
     | Some v \<Rightarrow> (Some v, c\<lparr>entries := filter (\<lambda>e. fst e \<noteq> k) (entries c) @ [(k, v)]\<rparr>))"

definition LRU_Put :: "LRU \<Rightarrow> ID \<Rightarrow> BitSet \<Rightarrow> LRU" where
  "LRU_Put c k v =
    (let es = filter (\<lambda>e. fst e \<noteq> k) (entries c) @ [(k, v)]
     in c\<lparr>entries := drop (length es - max 1 (Size c)) es\<rparr>)"

definition assetToFxCacheSize :: nat where
  "assetToFxCacheSize = 1024"

text \<open>\<open>VM.getFx\<close>: the registry is keyed by the dynamic type of the value.\<close>

definition getFx :: "Chain \<Rightarrow> Verifiable \<Rightarrow> error + nat" where
  "getFx vm val =
    (let valType = TypeOf val in
     case typeToFxIndex vm valType of
       None \<Rightarrow> Inl errUnknownFx
     | Some fx \<Rightarrow> Inr fx)"

text \<open>
  \<open>VM.verifyFxUsage\<close>, with the cache passed in and returned.  The loop over the
  declared states is \<open>fxBits\<close>: it adds the queried index, and only that one, when a
  state names it.
\<close>

definition fxBits :: "nat \<Rightarrow> InitialState list \<Rightarrow> BitSet" where
  "fxBits fxID States =
    foldl (\<lambda>fxIDs state. if FxIndex state = (word_of_nat fxID :: uint32)
                          then BitSet_Add fxIDs fxID else fxIDs) 0 States"

definition verifyFxUsage :: "Chain \<Rightarrow> LRU \<Rightarrow> nat \<Rightarrow> ID \<Rightarrow> bool \<times> LRU" where
  "verifyFxUsage vm cache fxID assetID =
    (case LRU_Get cache assetID of
       (Some fxIDs, cache1) \<Rightarrow> (BitSet_Contains fxIDs fxID, cache1)
     | (None, cache1) \<Rightarrow>
        if \<not> Fetched (tx_Status vm assetID) then (False, cache1)
        else
          (case tx_UnsignedTx vm assetID of
             OtherTx _ \<Rightarrow> (False, cache1)
           | CreateAssetTx States \<Rightarrow>
              (let fxIDs = fxBits fxID States
               in (BitSet_Contains fxIDs fxID, LRU_Put cache1 assetID fxIDs))))"

text \<open>
  Modelled from the spec: the direct derivation of a capability from the creation
  transaction (``a set of declared states, each naming a supported extension index''),
  against which the cached answers are compared.
\<close>

definition declaresFx :: "Chain \<Rightarrow> ID \<Rightarrow> nat \<Rightarrow> bool" where
  "declaresFx vm assetID fxID =
    (case tx_UnsignedTx vm assetID of
       OtherTx _ \<Rightarrow> False
     | CreateAssetTx States \<Rightarrow> list_ex (\<lambda>state. unat (FxIndex state) = fxID) States)"

text \<open>
  \<open>VM.verifyTransferOfUTXO\<close> and \<open>VM.verifyTransfer\<close>.  \<open>vm.fxs[fxIndex]\<close> panics
  when the index is not below the number of registered extensions.
\<close>

definition verifyTransferOfUTXO ::
  "Chain \<Rightarrow> LRU \<Rightarrow> UnsignedTx \<Rightarrow> TransferableInput \<Rightarrow> Verifiable \<Rightarrow> UTXO \<Rightarrow> error option \<times> LRU" where
  "verifyTransferOfUTXO vm cache tx inp cred utxo =
    (case getFx vm cred of
       Inl err \<Rightarrow> (Some err, cache)
     | Inr fxIndex \<Rightarrow>
        if \<not> fxIndex < length (fxs vm) then (Some panicIndex, cache)
        else
          (let fx = fxs vm ! fxIndex;
               utxoAssetID = Asset utxo;
               inAssetID = in_Asset inp
           in if utxoAssetID \<noteq> inAssetID then (Some errAssetIDMismatch, cache)
              else
                (case verifyFxUsage vm cache fxIndex inAssetID of
                   (False, cache1) \<Rightarrow> (Some errIncompatibleFx, cache1)
                 | (True, cache1) \<Rightarrow> (VerifyTransfer fx tx (In inp) cred (Out utxo), cache1))))"

definition verifyTransfer ::
  "Chain \<Rightarrow> LRU \<Rightarrow> UnsignedTx \<Rightarrow> TransferableInput \<Rightarrow> Verifiable \<Rightarrow> error option \<times> LRU" where
  "verifyTransfer vm cache tx inp cred =
    (case getUTXO vm (in_UTXOID inp) of
       Inl err \<Rightarrow> (Some err, cache)
     | Inr utxo \<Rightarrow> verifyTransferOfUTXO vm cache tx inp cred utxo)"

text \<open>
  The cache holds no more than the creation transactions declare: every index that a
  cached bitset contains is declared by the asset of its entry.
\<close>

definition cache_sound :: "Chain \<Rightarrow> LRU \<Rightarrow> bool" where
  "cache_sound vm c =
    list_all (\<lambda>e. list_all (\<lambda>i. BitSet_Contains (snd e) i \<longrightarrow> declaresFx vm (fst e) i) [0..<64])
      (entries c)"

section \<open>Batch scheduler and transaction issuance\<close>

datatype Message = common_PendingTxs | common_StopVertex

record Tx =
  tx_ID :: ID
  tx_Unsigned :: UnsignedTx

record UniqueTx =
  txID :: ID
  cached_Tx :: "Tx option"

definition batchTimeout :: nat where
  "batchTimeout = 1000000000"

definition batchSize :: nat where
  "batchSize = 30"

definition emptyID :: ID where
  "emptyID = 0"

text \<open>
  The fields of \<open>VM\<close> that issuance and the scheduler touch.  \<open>timer\<close> is the pending
  timeout of \<open>vm.timer\<close> in nanoseconds, \<open>None\<close> when none is set; \<open>toEngine\<close> is the
  buffer of the channel to the consensus engine and \<open>toEngine_cap\<close> the room it has, so
  that a \<open>select\<close> with a \<open>default\<close> branch sends when the buffer is not full.
  \<open>state_db\<close> is the ledger state behind \<open>vm.state\<close> and \<open>vm.db\<close>.  \<open>flushCalls\<close>
  is not a field of the Go struct: it counts the calls of \<open>FlushTxs\<close>, so that theorems
  can speak of how often a flush fired.
\<close>

record 'db VM =
  bootstrapped :: bool
  txs :: "UniqueTx list"
  timer :: "nat option"
  vm_batchTimeout :: nat
  toEngine :: "Message list"
  toEngine_cap :: nat
  state_db :: 'db
  flushCalls :: nat

text \<open>
  The collaborators of \<open>parseTx\<close> and \<open>IssueTx\<close> that are not among the sources: the
  parser, the checks of \<open>UniqueTx\<close> and the ledger state, each returning its error and
  the state it leaves.
\<close>

record 'db Collaborators =
  parser_Parse :: "bytes \<Rightarrow> error + Tx"
  SyntacticVerify :: "UniqueTx \<Rightarrow> error option"
  unique_Status :: "'db \<Rightarrow> ID \<Rightarrow> Status"
  state_PutTx :: "'db \<Rightarrow> ID \<Rightarrow> Tx \<Rightarrow> error option \<times> 'db"
  setStatus :: "'db \<Rightarrow> ID \<Rightarrow> Status \<Rightarrow> error option \<times> 'db"
  db_Commit :: "'db \<Rightarrow> error option \<times> 'db"
  unique_verifyWithoutCacheWrites :: "'db \<Rightarrow> UniqueTx \<Rightarrow> error option"

text \<open>\<open>VM.FlushTxs\<close>.\<close>

definition FlushTxs :: "'db VM \<Rightarrow> 'db VM" where
  "FlushTxs vm =
    (let vm1 = vm\<lparr>timer := None, flushCalls := Suc (flushCalls vm)\<rparr>
     in if length (txs vm1) \<noteq> 0
        then (if length (toEngine vm1) < toEngine_cap vm1
              then vm1\<lparr>toEngine := toEngine vm1 @ [common_PendingTxs]\<rparr>
              else vm1\<lparr>timer := Some (vm_batchTimeout vm1)\<rparr>)
        else vm1)"

text \<open>\<open>VM.PendingTxs\<close>: the pull of the consensus engine.\<close>

definition PendingTxs :: "'db VM \<Rightarrow> UniqueTx list \<times> 'db VM" where
  "PendingTxs vm = (txs vm, vm\<lparr>timer := None, txs := []\<rparr>)"

text \<open>\<open>VM.issueTx\<close>.\<close>

definition issueTx :: "'db VM \<Rightarrow> UniqueTx \<Rightarrow> 'db VM" where
  "issueTx vm tx =
    (let vm1 = vm\<lparr>txs := txs vm @ [tx]\<rparr>
     in if length (txs vm1) = batchSize then FlushTxs vm1
        else if length (txs vm1) = 1 then vm1\<lparr>timer := Some (vm_batchTimeout vm1)\<rparr>
        else vm1)"

text \<open>
  \<open>VM.parseTx\<close>.  Go returns the transaction together with the error of the commit;
  its callers read the error first, so the model returns one or the other.
\<close>

definition parseTx :: "'db Collaborators \<Rightarrow> 'db VM \<Rightarrow> bytes \<Rightarrow> (error + UniqueTx) \<times> 'db VM" where
  "parseTx ext vm b =
    (case parser_Parse ext b of
       Inl err \<Rightarrow> (Inl err, vm)
     | Inr rawTx \<Rightarrow>
        (let tx = \<lparr>txID = tx_ID rawTx, cached_Tx = Some rawTx\<rparr>
         in case SyntacticVerify ext tx of
              Some err \<Rightarrow> (Inl err, vm)
            | None \<Rightarrow>
               if unique_Status ext (state_db vm) (txID tx) = Unknown
               then
                 (case state_PutTx ext (state_db vm) (txID tx) rawTx of
                    (Some err, d1) \<Rightarrow> (Inl err, vm\<lparr>state_db := d1\<rparr>)
                  | (None, d1) \<Rightarrow>
                     (case setStatus ext d1 (txID tx) Processing of
                        (Some err, d2) \<Rightarrow> (Inl err, vm\<lparr>state_db := d2\<rparr>)
                      | (None, d2) \<Rightarrow>
                         (case db_Commit ext d2 of
                            (Some err, d3) \<Rightarrow> (Inl err, vm\<lparr>state_db := d3\<rparr>)
                          | (None, d3) \<Rightarrow> (Inr tx, vm\<lparr>state_db := d3\<rparr>))))
               else (Inr tx, vm)))"

text \<open>\<open>VM.IssueTx\<close>: the ID and the error it returns, and the VM it leaves.\<close>

definition IssueTx :: "'db Collaborators \<Rightarrow> 'db VM \<Rightarrow> bytes \<Rightarrow> (ID \<times> error option) \<times> 'db VM" where
  "IssueTx ext vm b =
    (if \<not> bootstrapped vm then ((emptyID, Some errBootstrapping), vm)
     else
       (case parseTx ext vm b of
          (Inl err, vm1) \<Rightarrow> ((emptyID, Some err), vm1)
        | (Inr tx, vm1) \<Rightarrow>
           (case unique_verifyWithoutCacheWrites ext (state_db vm1) tx of
              Some err \<Rightarrow> ((emptyID, Some err), vm1)
            | None \<Rightarrow> ((txID tx, None), issueTx vm1 tx))))"

text \<open>A run of submissions that all pass parsing and verification, with no pull between.\<close>

definition issueAll :: "'db VM \<Rightarrow> UniqueTx list \<Rightarrow> 'db VM" where
  "issueAll vm ts = foldl issueTx vm ts"

section \<open>Coin selection\<close>

text \<open>
  A keychain is used through \<open>kc.Spend(out, time)\<close> alone, which gives the input that
  spends the output and the keys that sign it, or an error.  A Go map from asset IDs
  to amounts is a partial function, and a read of a missing key gives the zero value.
  Go leaves open in which order \<open>range\<close> visits the keys of a map, and the run time
  changes it from one loop to the next: a function that ranges over a map takes that
  order as the argument \<open>order\<close>, a list of the map's keys.
\<close>

type_synonym Keychain = "Output \<Rightarrow> uint64 \<Rightarrow> error + (Input \<times> PrivateKey list)"
type_synonym Amounts = "ID \<rightharpoonup> uint64"

definition map_get :: "Amounts \<Rightarrow> ID \<Rightarrow> uint64" where
  "map_get m k = (case m k of None \<Rightarrow> 0 | Some v \<Rightarrow> v)"

text \<open>
  The type assertion \<open>inputIntf.(djtx.TransferableIn)\<close>: the inputs that have an
  \<open>Amount()\<close>.
\<close>

fun Amount :: "Input \<Rightarrow> uint64 option" where
  "Amount (TransferInput amt sigs) = Some amt"
| "Amount _ = None"

text \<open>
  Modelled from the spec: \<open>safemath.Add64\<close> (package utils/math is not among the
  sources), the ``overflow-checked addition'' of two unsigned 64-bit numbers.
\<close>

definition Add64 :: "uint64 \<Rightarrow> uint64 \<Rightarrow> error + uint64" where
  "Add64 a b = (if unat a + unat b < 2 ^ 64 then Inr (a + b) else Inl errOverflow)"

text \<open>
  Modelled from the spec: \<open>djtx.SortTransferableInputsWithSigners\<close> (package
  vms/components/djtx is not among the sources), which sorts the inputs, and the signer
  sets along with them, by the UTXO locator of the input: the source transaction's ID,
  then the output index.
\<close>

definition InputSource :: "UTXOID \<Rightarrow> ID \<times> uint32" where
  "InputSource u = (TxID u, OutputIndex u)"

definition SortTransferableInputsWithSigners ::
  "TransferableInput list \<Rightarrow> PrivateKey list list \<Rightarrow> TransferableInput list \<times> PrivateKey list list" where
  "SortTransferableInputsWithSigners ins signers =
    (let ps = sort_key (\<lambda>p. InputSource (in_UTXOID (fst p))) (zip ins signers)
     in (map fst ps, map snd ps))"

type_synonym Selection = "Amounts \<times> TransferableInput list \<times> PrivateKey list list"

text \<open>The first loop of \<open>VM.Spend\<close>, over the UTXOs.\<close>

fun Spend_scan :: "Keychain \<Rightarrow> uint64 \<Rightarrow> Amounts \<Rightarrow> UTXO list \<Rightarrow> Selection \<Rightarrow> error + Selection" where
  "Spend_scan kc time amounts [] sel = Inr sel"
| "Spend_scan kc time amounts (utxo # utxos) (amountsSpent, ins, keys) =
    (let assetID = Asset utxo;
         amount = map_get amounts assetID;
         amountSpent = map_get amountsSpent assetID
     in if amountSpent \<ge> amount
        then Spend_scan kc time amounts utxos (amountsSpent, ins, keys)
        else
          (case kc (Out utxo) time of
             Inl _ \<Rightarrow> Spend_scan kc time amounts utxos (amountsSpent, ins, keys)
           | Inr (inputIntf, signers) \<Rightarrow>
              (case Amount inputIntf of
                 None \<Rightarrow> Spend_scan kc time amounts utxos (amountsSpent, ins, keys)
               | Some amt \<Rightarrow>
                  (case Add64 amountSpent amt of
                     Inl _ \<Rightarrow> Inl errSpendOverflow
                   | Inr newAmountSpent \<Rightarrow>
                      Spend_scan kc time amounts utxos
                        (amountsSpent(assetID \<mapsto> newAmountSpent),
                         ins @ [\<lparr>in_UTXOID = utxo_UTXOID utxo, in_Asset = assetID, In = inputIntf\<rparr>],
                         keys @ [signers])))))"

text \<open>
  The second loop of \<open>VM.Spend\<close>, over the entries of the required amounts in the
  order of the \<open>range\<close>; only keys of the map are visited.
\<close>

fun Spend_check :: "Amounts \<Rightarrow> Amounts \<Rightarrow> ID list \<Rightarrow> error option" where
  "Spend_check amountsSpent amounts [] = None"
| "Spend_check amountsSpent amounts (asset # rest) =
    (case amounts asset of
       None \<Rightarrow> Spend_check amountsSpent amounts rest
     | Some amount \<Rightarrow>
        if map_get amountsSpent asset < amount
        then Some (errWantToSpend amount asset (map_get amountsSpent asset))
        else Spend_check amountsSpent amounts rest)"

text \<open>
  The four results of \<open>VM.Spend\<close> and \<open>VM.SpendAll\<close>; \<open>None\<close> is Go's \<open>nil\<close>.
\<close>

type_synonym SpendResult =
  "Amounts option \<times> TransferableInput list option \<times> PrivateKey list list option \<times> error option"

text \<open>\<open>VM.Spend\<close>; \<open>time\<close> is the reading \<open>vm.clock.Unix()\<close>.\<close>

definition Spend :: "uint64 \<Rightarrow> ID list \<Rightarrow> UTXO list \<Rightarrow> Keychain \<Rightarrow> Amounts \<Rightarrow> SpendResult" where
  "Spend time order utxos kc amounts =
    (case Spend_scan kc time amounts utxos (Map.empty, [], []) of
       Inl err \<Rightarrow> (None, None, None, Some err)
     | Inr (amountsSpent, ins, keys) \<Rightarrow>
        (case Spend_check amountsSpent amounts order of
           Some err \<Rightarrow> (None, None, None, Some err)
         | None \<Rightarrow>
            (let (ins', keys') = SortTransferableInputsWithSigners ins keys
             in (Some amountsSpent, Some ins', Some keys', None))))"

text \<open>The loop of \<open>VM.SpendAll\<close>.\<close>

fun SpendAll_scan :: "Keychain \<Rightarrow> uint64 \<Rightarrow> UTXO list \<Rightarrow> Selection \<Rightarrow> error + Selection" where
  "SpendAll_scan kc time [] sel = Inr sel"
| "SpendAll_scan kc time (utxo # utxos) (amountsSpent, ins, keys) =
    (let assetID = Asset utxo;
         amountSpent = map_get amountsSpent assetID
     in case kc (Out utxo) time of
          Inl _ \<Rightarrow> SpendAll_scan kc time utxos (amountsSpent, ins, keys)
        | Inr (inputIntf, signers) \<Rightarrow>
           (case Amount inputIntf of
              None \<Rightarrow> SpendAll_scan kc time utxos (amountsSpent, ins, keys)
            | Some amt \<Rightarrow>
               (case Add64 amountSpent amt of
                  Inl _ \<Rightarrow> Inl errSpendOverflow
                | Inr newAmountSpent \<Rightarrow>
                   SpendAll_scan kc time utxos
                     (amountsSpent(assetID \<mapsto> newAmountSpent),
                      ins @ [\<lparr>in_UTXOID = utxo_UTXOID utxo, in_Asset = assetID, In = inputIntf\<rparr>],
                      keys @ [signers]))))"

definition SpendAll :: "uint64 \<Rightarrow> UTXO list \<Rightarrow> Keychain \<Rightarrow> SpendResult" where
  "SpendAll time utxos kc =
    (case SpendAll_scan kc time utxos (Map.empty, [], []) of
       Inl err \<Rightarrow> (None, None, None, Some err)
     | Inr (amountsSpent, ins, keys) \<Rightarrow>
        (let (ins', keys') = SortTransferableInputsWithSigners ins keys
         in (Some amountsSpent, Some ins', Some keys', None)))"

text \<open>
  The exact sum, over the naturals, of the amounts of the inputs of one asset; a
  selection is exact when the map of spent amounts holds these sums and there is one
  signer set for each input.
\<close>

definition amount_of :: "TransferableInput \<Rightarrow> nat" where
  "amount_of i = (case Amount (In i) of Some amt \<Rightarrow> unat amt | None \<Rightarrow> 0)"

definition sum_asset :: "TransferableInput list \<Rightarrow> ID \<Rightarrow> nat" where
  "sum_asset ins a = sum_list (map amount_of (filter (\<lambda>i. in_Asset i = a) ins))"

definition exact :: "Selection \<Rightarrow> bool" where
  "exact sel =
    (case sel of (spent, ins, keys) \<Rightarrow>
       (\<forall>a. unat (map_get spent a) = sum_asset ins a) \<and> length keys = length ins)"

section \<open>Minting\<close>

text \<open>
  A mint operation as \<open>VM.Mint\<close> builds it: the signature indices of the mint input,
  the owners of the mint output, and the amount and owners of the new transfer output.
\<close>

datatype FxOperation =
    MintOperation "uint32 list" OutputOwners uint64 OutputOwners
  | OtherOperation nat

record Operation =
  op_Asset :: ID
  op_UTXOIDs :: "UTXOID list"
  Op :: FxOperation

text \<open>\<open>delete(amounts, assetID)\<close> on a Go map.\<close>

definition delete :: "Amounts \<Rightarrow> ID \<Rightarrow> Amounts" where
  "delete amounts k = amounts(k := None)"

text \<open>
  \<open>txs.SortOperationsWithSigners\<close> sorts the operations, and the signer sets along with
  them, by the bytes the codec gives each operation; the codec is a parameter.
\<close>

definition SortOperationsWithSigners ::
  "Operation list \<Rightarrow> PrivateKey list list \<Rightarrow> (Operation \<Rightarrow> bytes) \<Rightarrow> Operation list \<times> PrivateKey list list" where
  "SortOperationsWithSigners ops signers codec =
    (let ps = sort_key (\<lambda>p. codec (fst p)) (zip ops signers)
     in (map fst ps, map snd ps))"

type_synonym MintState = "Amounts \<times> Operation list \<times> PrivateKey list list"

text \<open>The first loop of \<open>VM.Mint\<close>; the map of amounts is part of the loop's state.\<close>

fun Mint_scan :: "Keychain \<Rightarrow> uint64 \<Rightarrow> ShortID \<Rightarrow> UTXO list \<Rightarrow> MintState \<Rightarrow> MintState" where
  "Mint_scan kc time to [] st = st"
| "Mint_scan kc time to (utxo # utxos) (amounts, ops, keys) =
    (let assetID = Asset utxo;
         amount = map_get amounts assetID
     in if amount = 0 then Mint_scan kc time to utxos (amounts, ops, keys)
        else
          (case Out utxo of
             MintOutput owners \<Rightarrow>
              (case kc (MintOutput owners) time of
                 Inl _ \<Rightarrow> Mint_scan kc time to utxos (amounts, ops, keys)
               | Inr (inIntf, signers) \<Rightarrow>
                  (case inIntf of
                     SecpInput sigs \<Rightarrow>
                      Mint_scan kc time to utxos
                        (delete amounts assetID,
                         ops @ [\<lparr>op_Asset = Asset utxo,
                                 op_UTXOIDs = [utxo_UTXOID utxo],
                                 Op = MintOperation sigs owners amount
                                        \<lparr>Locktime = 0, Threshold = 1, Addrs = [to]\<rparr>\<rparr>],
                         keys @ [signers])
                   | _ \<Rightarrow> Mint_scan kc time to utxos (amounts, ops, keys)))
           | _ \<Rightarrow> Mint_scan kc time to utxos (amounts, ops, keys)))"

text \<open>
  The second loop of \<open>VM.Mint\<close>, over the entries that the first loop has left in the
  map: is an amount above zero among them?
\<close>

definition Mint_check :: "Amounts \<Rightarrow> ID list \<Rightarrow> bool" where
  "Mint_check amounts order =
    list_ex (\<lambda>k. case amounts k of None \<Rightarrow> False | Some amount \<Rightarrow> amount > 0) order"

text \<open>
  \<open>VM.Mint\<close>: its three results, and the map of amounts as the call leaves it to the
  caller.
\<close>

definition Mint ::
  "uint64 \<Rightarrow> ID list \<Rightarrow> (Operation \<Rightarrow> bytes) \<Rightarrow> UTXO list \<Rightarrow> Keychain \<Rightarrow> Amounts \<Rightarrow> ShortID \<Rightarrow>
   (Operation list option \<times> PrivateKey list list option \<times> error option) \<times> Amounts" where
  "Mint time order codec utxos kc amounts to =
    (case Mint_scan kc time to utxos (amounts, [], []) of
       (amounts', ops, keys) \<Rightarrow>
        if Mint_check amounts' order
        then ((None, None, Some errAddressesCantMintAsset), amounts')
        else
          (let (ops', keys') = SortOperationsWithSigners ops keys codec
           in ((Some ops', Some keys', None), amounts')))"

text \<open>
  The state of the first loop of \<open>Mint\<close> against the map the caller passed: the
  entries of the assets of the operations built so far are gone, the others are as they
  were.
\<close>

definition minted :: "Amounts \<Rightarrow> MintState \<Rightarrow> bool" where
  "minted amounts0 st =
    (case st of (amounts, ops, keys) \<Rightarrow>
       amounts = amounts0 |` (- op_Asset ` set ops) \<and> length keys = length ops)"

section \<open>Example values\<close>

definition tx0 :: UniqueTx where
  "tx0 = \<lparr>txID = 7, cached_Tx = Some \<lparr>tx_ID = 7, tx_Unsigned = OtherTx 0\<rparr>\<rparr>"

definition vm_idle :: "unit VM" where
  "vm_idle = \<lparr>bootstrapped = True, txs = [], timer = None, vm_batchTimeout = batchTimeout,
              toEngine = [], toEngine_cap = 1, state_db = (), flushCalls = 0\<rparr>"

definition ext0 :: "unit Collaborators" where
  "ext0 = \<lparr>parser_Parse = (\<lambda>b. Inr \<lparr>tx_ID = 7, tx_Unsigned = OtherTx 0\<rparr>),
           SyntacticVerify = (\<lambda>tx. None),
           unique_Status = (\<lambda>d i. Processing),
           state_PutTx = (\<lambda>d i tx. (None, d)),
           setStatus = (\<lambda>d i st. (None, d)),
           db_Commit = (\<lambda>d. (None, d)),
           unique_verifyWithoutCacheWrites = (\<lambda>d tx. None)\<rparr>"

definition owners1 :: OutputOwners where
  "owners1 = \<lparr>Locktime = 0, Threshold = 1, Addrs = [1]\<rparr>"

definition utxoA :: UTXO where
  "utxoA = \<lparr>utxo_UTXOID = \<lparr>TxID = 5, OutputIndex = 0\<rparr>, Asset = 9, Out = TransferOutput 100 owners1\<rparr>"

definition utxoB :: UTXO where
  "utxoB = \<lparr>utxo_UTXOID = \<lparr>TxID = 5, OutputIndex = 0\<rparr>, Asset = 8, Out = TransferOutput 40 owners1\<rparr>"

definition fx_accept :: Fx where
  "fx_accept = \<lparr>VerifyTransfer = (\<lambda>tx i c out. None)\<rparr>"

definition state0 :: InitialState where
  "state0 = \<lparr>FxIndex = 0, Outs = []\<rparr>"

definition state1 :: InitialState where
  "state1 = \<lparr>FxIndex = 1, Outs = []\<rparr>"

definition chain_of :: "Status \<Rightarrow> InitialState list \<Rightarrow> Chain" where
  "chain_of st States =
    \<lparr>InputID = (\<lambda>u. TxID u * 2 ^ 32 + unat (OutputIndex u)),
     state_GetUTXO = (\<lambda>i. Inl (errExternal 0)),
     verifyWithoutCacheWrites = (\<lambda>i. None),
     tx_Status = (\<lambda>i. st),
     tx_UTXOs = (\<lambda>i. [utxoA]),
     tx_UnsignedTx = (\<lambda>i. CreateAssetTx States),
     typeToFxIndex = [10 \<mapsto> 0, 11 \<mapsto> 1],
     fxs = [fx_accept, fx_accept]\<rparr>"

definition cache_empty :: LRU where
  "cache_empty = \<lparr>entries = [], Size = assetToFxCacheSize\<rparr>"

definition cred0 :: Verifiable where
  "cred0 = \<lparr>TypeOf = 10, content = []\<rparr>"

definition cred1 :: Verifiable where
  "cred1 = \<lparr>TypeOf = 11, content = []\<rparr>"

definition cred2 :: Verifiable where
  "cred2 = \<lparr>TypeOf = 12, content = []\<rparr>"

definition inputA :: TransferableInput where
  "inputA = \<lparr>in_UTXOID = \<lparr>TxID = 5, OutputIndex = 0\<rparr>, in_Asset = 9, In = TransferInput 100 [0]\<rparr>"

definition kc_all :: Keychain where
  "kc_all out time =
    (case out of
       TransferOutput amt owners \<Rightarrow> Inr (TransferInput amt [0], [1])
     | MintOutput owners \<Rightarrow> Inr (SecpInput [0], [1])
     | OtherOutput n \<Rightarrow> Inl (errExternal 2))"

definition utxo_of :: "ID \<Rightarrow> uint32 \<Rightarrow> ID \<Rightarrow> uint64 \<Rightarrow> UTXO" where
  "utxo_of t i a amt =
    \<lparr>utxo_UTXOID = \<lparr>TxID = t, OutputIndex = i\<rparr>, Asset = a, Out = TransferOutput amt owners1\<rparr>"

definition input_of :: "ID \<Rightarrow> uint32 \<Rightarrow> ID \<Rightarrow> uint64 \<Rightarrow> TransferableInput" where
  "input_of t i a amt =
    \<lparr>in_UTXOID = \<lparr>TxID = t, OutputIndex = i\<rparr>, in_Asset = a, In = TransferInput amt [0]\<rparr>"

definition mint_utxo :: "ID \<Rightarrow> uint32 \<Rightarrow> ID \<Rightarrow> UTXO" where
  "mint_utxo t i a =
    \<lparr>utxo_UTXOID = \<lparr>TxID = t, OutputIndex = i\<rparr>, Asset = a, Out = MintOutput owners1\<rparr>"

definition codec0 :: "Operation \<Rightarrow> bytes" where
  "codec0 op = [word_of_nat (op_Asset op)]"

definition mint_op :: "ID \<Rightarrow> uint32 \<Rightarrow> ID \<Rightarrow> uint64 \<Rightarrow> ShortID \<Rightarrow> Operation" where
  "mint_op t i a amt to =
    \<lparr>op_Asset = a, op_UTXOIDs = [\<lparr>TxID = t, OutputIndex = i\<rparr>],
     Op = MintOperation [0] owners1 amt \<lparr>Locktime = 0, Threshold = 1, Addrs = [to]\<rparr>\<rparr>"

section \<open>Properties of UTXO resolution\<close>

lemma int_of_index_nonneg: "\<not> sint (ucast (i :: uint32) :: 64 word) < 0"
proof -
  have "\<not> bit (ucast i :: 64 word) 63"
    by (simp add: bit_word_ucast_iff)
  then show ?thesis
    using bit_last_iff [of "ucast i :: 64 word"] by simp
qed

lemma len_le_index:
  assumes "length (us :: UTXO list) \<le> unat (i :: uint32)"
  shows "(word_of_nat (length us) :: uint32) \<le> i"
proof -
  have "unat i < 2 ^ 32" using unsigned_less [of i] by simp
  with assms have "length us < 2 ^ 32" by simp
  then have "unat (word_of_nat (length us) :: uint32) = length us"
    by (simp add: unat_of_nat)
  with assms show ?thesis by (simp add: word_le_nat_alt)
qed

lemma index_lt_len:
  assumes "unat (i :: uint32) < length (us :: UTXO list)" and "length us < 2 ^ 32"
  shows "\<not> (word_of_nat (length us) :: uint32) \<le> i"
proof -
  from assms(2) have "unat (word_of_nat (length us) :: uint32) = length us"
    by (simp add: unat_of_nat)
  with assms(1) show ?thesis by (simp add: word_le_nat_alt)
qed

text \<open>
  C1.  A UTXO found in committed state is returned as it is.  On a miss the source
  transaction of the input is verified again as an ancestor: when that verification
  fails, or the ancestor is Rejected, the result is \<open>errMissingUTXO\<close>; when it passes
  and the ancestor is undecided, the output at the input's index is returned (the
  ancestor declares fewer than \<open>2^32\<close> outputs, the range of an output index), and an
  index that is not below the number of declared outputs gives \<open>errInvalidUTXO\<close>.
\<close>

theorem getUTXO_resolution:
  fixes vm :: Chain and u :: UTXOID
  defines "hit \<equiv> state_GetUTXO vm (InputID vm u)"
      and "us \<equiv> tx_UTXOs vm (TxID u)"
      and "i \<equiv> unat (OutputIndex u)"
  shows "(hit = Inr utxo \<longrightarrow> getUTXO vm u = Inr utxo) \<and>
         (isl hit \<longrightarrow>
            (verifyWithoutCacheWrites vm (TxID u) \<noteq> None \<longrightarrow> getUTXO vm u = Inl errMissingUTXO) \<and>
            (tx_Status vm (TxID u) = Rejected \<longrightarrow> getUTXO vm u = Inl errMissingUTXO) \<and>
            (verifyWithoutCacheWrites vm (TxID u) = None \<and> \<not> Decided (tx_Status vm (TxID u)) \<longrightarrow>
               (i < length us \<and> length us < 2 ^ 32 \<longrightarrow> getUTXO vm u = Inr (us ! i)) \<and>
               (length us \<le> i \<longrightarrow> getUTXO vm u = Inl errInvalidUTXO)))"
proof -
  have a: "hit = Inr utxo \<longrightarrow> getUTXO vm u = Inr utxo"
    by (simp add: getUTXO_def hit_def)
  have b: "getUTXO vm u = Inl errMissingUTXO"
    if "isl hit" "verifyWithoutCacheWrites vm (TxID u) \<noteq> None"
    using that by (auto simp: getUTXO_def hit_def isl_def Let_def)
  have c: "getUTXO vm u = Inl errMissingUTXO"
    if "isl hit" "tx_Status vm (TxID u) = Rejected"
    using that by (auto simp: getUTXO_def hit_def isl_def Let_def split: option.splits)
  have d: "getUTXO vm u = Inr (us ! i)"
    if "isl hit" "verifyWithoutCacheWrites vm (TxID u) = None"
       "\<not> Decided (tx_Status vm (TxID u))" "i < length us" "length us < 2 ^ 32"
    using that index_lt_len [of "OutputIndex u" us] int_of_index_nonneg [of "OutputIndex u"]
    by (auto simp: getUTXO_def hit_def isl_def us_def i_def Let_def)
  have e: "getUTXO vm u = Inl errInvalidUTXO"
    if "isl hit" "verifyWithoutCacheWrites vm (TxID u) = None"
       "\<not> Decided (tx_Status vm (TxID u))" "length us \<le> i"
    using that len_le_index [of us "OutputIndex u"]
    by (auto simp: getUTXO_def hit_def isl_def us_def i_def Let_def)
  from a b c d e show ?thesis by blast
qed
theorem getUTXO_resolution_witness:
  "getUTXO ((chain_of Processing [])\<lparr>state_GetUTXO := (\<lambda>i. Inr utxoB)\<rparr>) \<lparr>TxID = 5, OutputIndex = 0\<rparr>
     = Inr utxoB \<and>
   getUTXO (chain_of Processing []) \<lparr>TxID = 5, OutputIndex = 0\<rparr> = Inr utxoA \<and>
   getUTXO (chain_of Rejected []) \<lparr>TxID = 5, OutputIndex = 0\<rparr> = Inl errMissingUTXO \<and>
   getUTXO (chain_of Processing []) \<lparr>TxID = 5, OutputIndex = 1\<rparr> = Inl errInvalidUTXO"
  using getUTXO_resolution [where vm = "(chain_of Processing [])\<lparr>state_GetUTXO := (\<lambda>i. Inr utxoB)\<rparr>"
          and u = "\<lparr>TxID = 5, OutputIndex = 0\<rparr>" and utxo = utxoB]
        getUTXO_resolution [where vm = "chain_of Processing []"
          and u = "\<lparr>TxID = 5, OutputIndex = 0\<rparr>"]
        getUTXO_resolution [where vm = "chain_of Rejected []"
          and u = "\<lparr>TxID = 5, OutputIndex = 0\<rparr>"]
        getUTXO_resolution [where vm = "chain_of Processing []"
          and u = "\<lparr>TxID = 5, OutputIndex = 1\<rparr>"]
  by (simp add: chain_of_def)

section \<open>Properties of the batch scheduler\<close>

lemma FlushTxs_txs: "txs (FlushTxs vm) = txs vm"
  by (simp add: FlushTxs_def Let_def)

lemma FlushTxs_batchTimeout: "vm_batchTimeout (FlushTxs vm) = vm_batchTimeout vm"
  by (simp add: FlushTxs_def Let_def)

lemma FlushTxs_calls: "flushCalls (FlushTxs vm) = Suc (flushCalls vm)"
  by (simp add: FlushTxs_def Let_def)

lemma FlushTxs_cap: "toEngine_cap (FlushTxs vm) = toEngine_cap vm"
  by (simp add: FlushTxs_def Let_def)

text \<open>
  C5.  A flush leaves the pending transactions as they are.  It cancels the timer first:
  the timeout that was pending has no influence on the result.  With nothing pending it
  does no more.  With transactions pending it sends \<open>PendingTxs\<close> to the engine when
  the channel has room, and the timer stays cancelled; when the channel is full it
  sends nothing and sets the timeout to the batch timeout again.
\<close>

theorem FlushTxs_behaviour:
  "txs (FlushTxs vm) = txs vm \<and>
   FlushTxs (vm\<lparr>timer := t\<rparr>) = FlushTxs vm \<and>
   (txs vm = [] \<longrightarrow>
      timer (FlushTxs vm) = None \<and> toEngine (FlushTxs vm) = toEngine vm) \<and>
   (txs vm \<noteq> [] \<and> length (toEngine vm) < toEngine_cap vm \<longrightarrow>
      timer (FlushTxs vm) = None \<and> toEngine (FlushTxs vm) = toEngine vm @ [common_PendingTxs]) \<and>
   (txs vm \<noteq> [] \<and> \<not> length (toEngine vm) < toEngine_cap vm \<longrightarrow>
      timer (FlushTxs vm) = Some (vm_batchTimeout vm) \<and> toEngine (FlushTxs vm) = toEngine vm)"
  by (simp add: FlushTxs_def Let_def)

theorem FlushTxs_behaviour_witness:
  "txs (FlushTxs (vm_idle\<lparr>txs := [tx0], timer := Some 5\<rparr>)) = [tx0] \<and>
   timer (FlushTxs (vm_idle\<lparr>txs := [tx0], timer := Some 5\<rparr>)) = None \<and>
   toEngine (FlushTxs (vm_idle\<lparr>txs := [tx0], timer := Some 5\<rparr>)) = [common_PendingTxs] \<and>
   timer (FlushTxs (vm_idle\<lparr>txs := [tx0], toEngine := [common_StopVertex]\<rparr>))
     = Some batchTimeout \<and>
   toEngine (FlushTxs (vm_idle\<lparr>txs := [tx0], toEngine := [common_StopVertex]\<rparr>))
     = [common_StopVertex] \<and>
   timer (FlushTxs (vm_idle\<lparr>timer := Some 5\<rparr>)) = None \<and>
   toEngine (FlushTxs (vm_idle\<lparr>timer := Some 5\<rparr>)) = []"
  using FlushTxs_behaviour [of "vm_idle\<lparr>txs := [tx0], timer := Some 5\<rparr>" "Some 5"]
        FlushTxs_behaviour [of "vm_idle\<lparr>txs := [tx0], toEngine := [common_StopVertex]\<rparr>" None]
        FlushTxs_behaviour [of "vm_idle\<lparr>timer := Some 5\<rparr>" None]
  by (simp add: vm_idle_def)

lemma issueTx_txs: "txs (issueTx vm tx) = txs vm @ [tx]"
  by (simp add: issueTx_def Let_def FlushTxs_txs)

lemma issueTx_batchTimeout: "vm_batchTimeout (issueTx vm tx) = vm_batchTimeout vm"
  by (simp add: issueTx_def Let_def FlushTxs_batchTimeout)

lemma issueTx_calls:
  "flushCalls (issueTx vm tx) =
     (if Suc (length (txs vm)) = batchSize then Suc (flushCalls vm) else flushCalls vm)"
  by (simp add: issueTx_def Let_def FlushTxs_calls)

lemma issueTx_timer:
  "Suc (length (txs vm)) \<noteq> batchSize \<Longrightarrow>
   timer (issueTx vm tx) = (if txs vm = [] then Some (vm_batchTimeout vm) else timer vm)"
  by (simp add: issueTx_def Let_def)

lemma issueTx_flush_timer:
  "Suc (length (txs vm)) = batchSize \<Longrightarrow>
   timer (issueTx vm tx) =
     (if length (toEngine vm) < toEngine_cap vm then None else Some (vm_batchTimeout vm))"
  by (simp add: issueTx_def Let_def FlushTxs_def)

lemma issueTx_cap: "toEngine_cap (issueTx vm tx) = toEngine_cap vm"
  by (simp add: issueTx_def Let_def FlushTxs_cap)

lemma issueTx_toEngine:
  "Suc (length (txs vm)) \<noteq> batchSize \<Longrightarrow> toEngine (issueTx vm tx) = toEngine vm"
  by (simp add: issueTx_def Let_def)

lemma issueAll_snoc: "issueAll vm (ts @ [tx]) = issueTx (issueAll vm ts) tx"
  by (simp add: issueAll_def)

lemma issueAll_txs: "txs (issueAll vm ts) = txs vm @ ts"
  by (induction ts rule: rev_induct) (simp_all add: issueAll_def issueTx_txs)

lemma issueAll_batchTimeout: "vm_batchTimeout (issueAll vm ts) = vm_batchTimeout vm"
  by (induction ts rule: rev_induct) (simp_all add: issueAll_def issueTx_batchTimeout)

lemma issueAll_cap: "toEngine_cap (issueAll vm ts) = toEngine_cap vm"
  by (induction ts rule: rev_induct) (simp_all add: issueAll_def issueTx_cap)

lemma issueAll_toEngine:
  "length (txs vm) + length ts < batchSize \<Longrightarrow> toEngine (issueAll vm ts) = toEngine vm"
proof (induction ts rule: rev_induct)
  case Nil
  then show ?case by (simp add: issueAll_def)
next
  case (snoc t ts)
  then show ?case
    by (simp add: issueAll_snoc issueTx_toEngine issueAll_txs)
qed

lemma issueAll_calls:
  "txs vm = [] \<Longrightarrow>
   flushCalls (issueAll vm ts) = (if batchSize \<le> length ts then Suc (flushCalls vm) else flushCalls vm)"
proof (induction ts rule: rev_induct)
  case Nil
  then show ?case by (simp add: issueAll_def batchSize_def)
next
  case (snoc t ts)
  then show ?case
    by (auto simp: issueAll_snoc issueTx_calls issueAll_txs)
qed

lemma issueAll_timer:
  "txs vm = [] \<Longrightarrow> ts \<noteq> [] \<Longrightarrow> length ts < batchSize \<Longrightarrow>
   timer (issueAll vm ts) = Some (vm_batchTimeout vm)"
proof (induction ts rule: rev_induct)
  case Nil
  then show ?case by simp
next
  case (snoc t ts)
  then have ne: "Suc (length (txs (issueAll vm ts))) \<noteq> batchSize"
    by (simp add: issueAll_txs)
  show ?case
  proof (cases "ts = []")
    case True
    with snoc.prems show ?thesis
      by (simp add: issueAll_def issueTx_timer)
  next
    case False
    with snoc ne show ?thesis
      by (simp add: issueAll_snoc issueTx_timer issueAll_txs)
  qed
qed

text \<open>
  C4, as the code has it.  From an idle scheduler (nothing pending, no flush yet) and
  with no pull between the submissions: the pending sequence holds exactly the
  submitted transactions; a flush has fired once when 30 or more were submitted and not
  at all before, so the pending sequence is shorter than the batch size as long as no
  flush has fired; after the first and up to the 29th submission the timeout is set.
  The 31st submission starts a fresh pending window (it is alone in the pending
  sequence and sets the timeout) when the engine has pulled the batch with
  \<open>PendingTxs\<close> after the flush; without a pull it is added to the 30 pending
  transactions, no further flush fires and the timer is left as the flush left it.
\<close>

theorem issueTx_batch_bound:
  assumes "txs vm = []" and "flushCalls vm = 0"
  shows "txs (issueAll vm ts) = ts \<and>
         flushCalls (issueAll vm ts) = (if batchSize \<le> length ts then 1 else 0) \<and>
         (flushCalls (issueAll vm ts) = 0 \<longrightarrow> length (txs (issueAll vm ts)) < batchSize) \<and>
         (ts \<noteq> [] \<and> length ts < batchSize \<longrightarrow> timer (issueAll vm ts) = Some (vm_batchTimeout vm)) \<and>
         (length ts = batchSize \<longrightarrow>
            txs (issueTx (snd (PendingTxs (issueAll vm ts))) tx) = [tx] \<and>
            timer (issueTx (snd (PendingTxs (issueAll vm ts))) tx) = Some (vm_batchTimeout vm) \<and>
            flushCalls (issueTx (snd (PendingTxs (issueAll vm ts))) tx) = 1 \<and>
            txs (issueTx (issueAll vm ts) tx) = ts @ [tx] \<and>
            timer (issueTx (issueAll vm ts) tx) = timer (issueAll vm ts) \<and>
            flushCalls (issueTx (issueAll vm ts) tx) = 1)"
proof -
  have a: "txs (issueAll vm ts) = ts"
    using assms(1) by (simp add: issueAll_txs)
  have b: "flushCalls (issueAll vm ts) = (if batchSize \<le> length ts then 1 else 0)"
    using assms by (simp add: issueAll_calls)
  have c: "flushCalls (issueAll vm ts) = 0 \<longrightarrow> length (txs (issueAll vm ts)) < batchSize"
    using a b by (simp split: if_splits)
  have d: "ts \<noteq> [] \<and> length ts < batchSize \<longrightarrow> timer (issueAll vm ts) = Some (vm_batchTimeout vm)"
    using assms(1) by (simp add: issueAll_timer)
  have e: "txs (issueTx (snd (PendingTxs (issueAll vm ts))) tx) = [tx]"
    by (simp add: issueTx_txs PendingTxs_def)
  have f: "timer (issueTx (snd (PendingTxs (issueAll vm ts))) tx) = Some (vm_batchTimeout vm)"
    by (simp add: issueTx_timer PendingTxs_def batchSize_def issueAll_batchTimeout)
  have g: "flushCalls (issueTx (snd (PendingTxs (issueAll vm ts))) tx) = 1"
    if "length ts = batchSize"
    using that b by (simp add: issueTx_calls PendingTxs_def batchSize_def)
  have h: "txs (issueTx (issueAll vm ts) tx) = ts @ [tx]"
    using a by (simp add: issueTx_txs)
  have i: "timer (issueTx (issueAll vm ts) tx) = timer (issueAll vm ts)"
    if "length ts = batchSize"
    using that a by (auto simp: issueTx_timer batchSize_def)
  have j: "flushCalls (issueTx (issueAll vm ts) tx) = 1"
    if "length ts = batchSize"
    using that a b by (simp add: issueTx_calls)
  from a b c d e f g h i j show ?thesis by blast
qed

theorem issueTx_batch_bound_witness:
  "txs (issueAll vm_idle (replicate 30 tx0)) = replicate 30 tx0 \<and>
   flushCalls (issueAll vm_idle (replicate 30 tx0)) = 1 \<and>
   flushCalls (issueAll vm_idle (replicate 29 tx0)) = 0 \<and>
   timer (issueAll vm_idle (replicate 29 tx0)) = Some batchTimeout \<and>
   txs (issueTx (snd (PendingTxs (issueAll vm_idle (replicate 30 tx0)))) tx0) = [tx0] \<and>
   timer (issueTx (snd (PendingTxs (issueAll vm_idle (replicate 30 tx0)))) tx0) = Some batchTimeout"
  using issueTx_batch_bound [of vm_idle "replicate 30 tx0" tx0]
        issueTx_batch_bound [of vm_idle "replicate 29 tx0" tx0]
  by (simp add: vm_idle_def batchSize_def)

text \<open>
  C4 fails as the specification states it: after 31 submissions with no pull the 31st transaction is
  the 31st of the pending sequence, and no timeout is set.
\<close>

theorem issueTx_31st_no_fresh_window:
  "length (txs (issueAll vm_idle (replicate 31 tx0))) = 31 \<and>
   timer (issueAll vm_idle (replicate 31 tx0)) = None \<and>
   flushCalls (issueAll vm_idle (replicate 31 tx0)) = 1"
proof -
  let ?vm = "issueAll vm_idle (replicate 30 tx0)"
  have "replicate (Suc 30) tx0 = replicate 30 tx0 @ [tx0]"
    by (simp only: replicate_Suc replicate_append_same)
  then have r: "replicate 31 tx0 = replicate 30 tx0 @ [tx0]"
    by simp
  have t: "txs ?vm = replicate 30 tx0"
    by (simp add: issueAll_txs vm_idle_def)
  have "replicate (Suc 29) tx0 = replicate 29 tx0 @ [tx0]"
    by (simp only: replicate_Suc replicate_append_same)
  then have split: "replicate 30 tx0 = replicate 29 tx0 @ [tx0]"
    by simp
  have "txs (issueAll vm_idle (replicate 29 tx0)) = replicate 29 tx0"
    by (simp add: issueAll_txs vm_idle_def)
  moreover have "toEngine (issueAll vm_idle (replicate 29 tx0)) = []"
    by (simp add: issueAll_toEngine vm_idle_def batchSize_def)
  moreover have "toEngine_cap (issueAll vm_idle (replicate 29 tx0)) = 1"
    by (simp add: issueAll_cap vm_idle_def)
  ultimately have tm: "timer ?vm = None"
    unfolding split issueAll_snoc
    by (simp add: issueTx_flush_timer batchSize_def)
  have "timer (issueAll vm_idle (replicate 31 tx0)) = timer ?vm"
    unfolding r issueAll_snoc using t by (simp add: issueTx_timer batchSize_def)
  with tm have "timer (issueAll vm_idle (replicate 31 tx0)) = None" by simp
  moreover have "length (txs (issueAll vm_idle (replicate 31 tx0))) = 31"
    by (simp add: issueAll_txs vm_idle_def)
  moreover have "flushCalls (issueAll vm_idle (replicate 31 tx0)) = 1"
    by (simp add: issueAll_calls vm_idle_def batchSize_def)
  ultimately show ?thesis by simp
qed

section \<open>Properties of transaction issuance\<close>

text \<open>
  C10.  While the VM is not bootstrapped, \<open>IssueTx\<close> returns the zero ID and
  \<open>errBootstrapping\<close> and leaves the VM as it was, whatever the parser, the checks and
  the ledger state would do with the bytes: none of them is called.
\<close>

theorem IssueTx_bootstrapping:
  "\<not> bootstrapped vm \<Longrightarrow> IssueTx ext vm b = ((emptyID, Some errBootstrapping), vm)"
  by (simp add: IssueTx_def)

theorem IssueTx_bootstrapping_witness:
  "IssueTx ext0 (vm_idle\<lparr>bootstrapped := False\<rparr>) [1, 2, 3]
     = ((0, Some errBootstrapping), vm_idle\<lparr>bootstrapped := False\<rparr>) \<and>
   fst (IssueTx ext0 vm_idle [1, 2, 3]) = (7, None)"
  using IssueTx_bootstrapping [of "vm_idle\<lparr>bootstrapped := False\<rparr>" ext0 "[1, 2, 3]"]
  by (simp add: vm_idle_def emptyID_def IssueTx_def parseTx_def ext0_def)

section \<open>Properties of the asset capability cache and of extension dispatch\<close>

lemma Contains_lt: "BitSet_Contains bs i \<Longrightarrow> i < 64"
proof (rule ccontr)
  assume c: "BitSet_Contains bs i" and "\<not> i < 64"
  then have z: "(push_bit i 1 :: uint64) = 0"
    by (intro push_bit_word_beyond) simp
  from c show False
    unfolding BitSet_Contains_def z by simp
qed

lemma Contains_zero: "\<not> BitSet_Contains 0 i"
  by (simp add: BitSet_Contains_def)

lemma bit_single: "bit (2 ^ j :: uint64) n \<longleftrightarrow> n = j \<and> n < 64"
  by (auto simp: bit_simps)

lemma Contains_single: "BitSet_Contains (2 ^ j) i \<longleftrightarrow> i = j \<and> i < 64"
proof (cases "i < 64")
  case False
  then show ?thesis using Contains_lt by blast
next
  case True
  show ?thesis
  proof (cases "i = j")
    case True
    have "(2 ^ i :: uint64) \<noteq> 0" using \<open>i < 64\<close> by simp
    with True \<open>i < 64\<close> show ?thesis by (simp add: BitSet_Contains_def)
  next
    case False
    have "(2 ^ j AND 2 ^ i :: uint64) = 0"
      by (rule bit_eqI) (use False in \<open>auto simp: bit_and_iff bit_single\<close>)
    with False show ?thesis by (simp add: BitSet_Contains_def)
  qed
qed

lemma fxBits_gen:
  "foldl (\<lambda>fxIDs state. if FxIndex state = (word_of_nat fxID :: uint32)
                          then BitSet_Add fxIDs fxID else fxIDs) bs States
   = (if \<exists>s \<in> set States. FxIndex s = word_of_nat fxID then BitSet_Add bs fxID else bs)"
  by (induction States arbitrary: bs) (auto simp: BitSet_Add_def or.assoc)

lemma fxBits_eq:
  "fxBits fxID States =
     (if \<exists>s \<in> set States. FxIndex s = word_of_nat fxID then push_bit fxID 1 else 0)"
  by (simp add: fxBits_def fxBits_gen BitSet_Add_def)

lemma fxBits_Contains:
  "BitSet_Contains (fxBits fxID States) i \<longleftrightarrow>
     i = fxID \<and> i < 64 \<and> (\<exists>s \<in> set States. FxIndex s = word_of_nat fxID)"
  by (auto simp: fxBits_eq Contains_single Contains_zero)

lemma word_of_small: "i < 64 \<Longrightarrow> (w :: uint32) = word_of_nat i \<longleftrightarrow> unat w = i"
  by (auto simp: unat_of_nat)


lemma cache_sound_iff:
  "cache_sound vm c \<longleftrightarrow>
     (\<forall>k bs i. (k, bs) \<in> set (entries c) \<and> BitSet_Contains bs i \<longrightarrow> declaresFx vm k i)"
  unfolding cache_sound_def list_all_iff
  using Contains_lt by fastforce

lemma fxBits_declares:
  assumes "tx_UnsignedTx vm a = CreateAssetTx States" and "BitSet_Contains (fxBits i States) j"
  shows "declaresFx vm a j"
proof -
  from assms(2) have ij: "j = i" and lt: "i < 64"
    and ex: "\<exists>s \<in> set States. FxIndex s = word_of_nat i"
    by (simp_all add: fxBits_Contains)
  from ex obtain s where s: "s \<in> set States" "FxIndex s = word_of_nat i" by blast
  from s(2) lt have "unat (FxIndex s) = i" by (simp add: word_of_small)
  with s(1) assms(1) ij show ?thesis
    by (auto simp: declaresFx_def list_ex_iff)
qed

lemma verifyFxUsage_sound:
  assumes "cache_sound vm c" and "fst (verifyFxUsage vm c i a)"
  shows "declaresFx vm a i"
proof (cases "map_of (entries c) a")
  case (Some bs)
  with assms(2) have "BitSet_Contains bs i"
    by (simp add: verifyFxUsage_def LRU_Get_def)
  moreover from Some have "(a, bs) \<in> set (entries c)" by (rule map_of_SomeD)
  ultimately show ?thesis using assms(1) by (auto simp: cache_sound_iff)
next
  case None
  with assms(2) obtain States where st: "tx_UnsignedTx vm a = CreateAssetTx States"
    and "BitSet_Contains (fxBits i States) i"
    by (auto simp: verifyFxUsage_def LRU_Get_def Let_def split: if_splits UnsignedTx.splits)
  then show ?thesis by (rule fxBits_declares)
qed

lemma verifyFxUsage_keeps_sound:
  assumes "cache_sound vm c"
  shows "cache_sound vm (snd (verifyFxUsage vm c i a))"
proof (cases "map_of (entries c) a")
  case (Some bs)
  then have "(a, bs) \<in> set (entries c)" by (rule map_of_SomeD)
  with assms Some show ?thesis
    by (auto simp: verifyFxUsage_def LRU_Get_def cache_sound_iff)
next
  case None
  show ?thesis
  proof (cases "Fetched (tx_Status vm a)")
    case False
    with None assms show ?thesis by (simp add: verifyFxUsage_def LRU_Get_def)
  next
    case True
    show ?thesis
    proof (cases "tx_UnsignedTx vm a")
      case (OtherTx n)
      with None True assms show ?thesis by (simp add: verifyFxUsage_def LRU_Get_def)
    next
      case (CreateAssetTx States)
      have "declaresFx vm k j"
        if "(k, bs) \<in> set (entries (LRU_Put c a (fxBits i States)))" "BitSet_Contains bs j"
        for k bs j
      proof -
        from that(1) have "(k, bs) \<in> set (entries c) \<or> (k, bs) = (a, fxBits i States)"
          by (auto simp: LRU_Put_def Let_def dest!: in_set_dropD)
        then show ?thesis
        proof
          assume "(k, bs) \<in> set (entries c)"
          with assms that(2) show ?thesis by (auto simp: cache_sound_iff)
        next
          assume "(k, bs) = (a, fxBits i States)"
          with that(2) CreateAssetTx show ?thesis by (auto intro: fxBits_declares)
        qed
      qed
      then have "cache_sound vm (LRU_Put c a (fxBits i States))"
        by (auto simp: cache_sound_iff)
      with None True CreateAssetTx show ?thesis
        by (simp add: verifyFxUsage_def LRU_Get_def Let_def)
    qed
  qed
qed

text \<open>
  C6.  A credential whose kind is not in the registry is rejected with \<open>errUnknownFx\<close>,
  and the cache is not touched.  When the kind maps to a registered extension index
  \<open>i\<close>, the UTXO and the input name the same asset, and the creation transaction of
  that asset declares no state for index \<open>i\<close>, the transfer is rejected with
  \<open>errIncompatibleFx\<close>; the cache holds what earlier checks have put there
  (\<open>cache_sound\<close>, which \<open>verifyFxUsage\<close> keeps).
\<close>

theorem verifyTransferOfUTXO_capability:
  "(typeToFxIndex vm (TypeOf cred) = None \<longrightarrow>
      verifyTransferOfUTXO vm cache tx inp cred utxo = (Some errUnknownFx, cache)) \<and>
   (typeToFxIndex vm (TypeOf cred) = Some i \<and> i < length (fxs vm) \<and>
    Asset utxo = in_Asset inp \<and> cache_sound vm cache \<and> \<not> declaresFx vm (in_Asset inp) i \<longrightarrow>
      fst (verifyTransferOfUTXO vm cache tx inp cred utxo) = Some errIncompatibleFx)"
proof -
  have a: "verifyTransferOfUTXO vm cache tx inp cred utxo = (Some errUnknownFx, cache)"
    if "typeToFxIndex vm (TypeOf cred) = None"
    using that by (simp add: verifyTransferOfUTXO_def getFx_def)
  have b: "fst (verifyTransferOfUTXO vm cache tx inp cred utxo) = Some errIncompatibleFx"
    if h: "typeToFxIndex vm (TypeOf cred) = Some i" "i < length (fxs vm)"
       "Asset utxo = in_Asset inp" "cache_sound vm cache" "\<not> declaresFx vm (in_Asset inp) i"
  proof -
    from h(4,5) have "\<not> fst (verifyFxUsage vm cache i (in_Asset inp))"
      using verifyFxUsage_sound by blast
    then obtain c1 where "verifyFxUsage vm cache i (in_Asset inp) = (False, c1)"
      by (cases "verifyFxUsage vm cache i (in_Asset inp)") auto
    with h(1,2,3) show ?thesis
      by (simp add: verifyTransferOfUTXO_def getFx_def)
  qed
  from a b show ?thesis by blast
qed


theorem verifyTransferOfUTXO_capability_witness:
  "fst (verifyTransferOfUTXO (chain_of Accepted [state0]) cache_empty (OtherTx 0) inputA cred1 utxoA)
     = Some errIncompatibleFx \<and>
   verifyTransferOfUTXO (chain_of Accepted [state0]) cache_empty (OtherTx 0) inputA cred2 utxoA
     = (Some errUnknownFx, cache_empty) \<and>
   fst (verifyTransferOfUTXO (chain_of Accepted [state0]) cache_empty (OtherTx 0) inputA cred0 utxoA)
     = None"
  using verifyTransferOfUTXO_capability
          [of "chain_of Accepted [state0]" cred1 cache_empty "OtherTx 0" inputA utxoA 1]
        verifyTransferOfUTXO_capability
          [of "chain_of Accepted [state0]" cred2 cache_empty "OtherTx 0" inputA utxoA 1]
  by (simp add: chain_of_def cache_sound_def cache_empty_def declaresFx_def state0_def
        cred1_def cred2_def cred0_def inputA_def utxoA_def verifyTransferOfUTXO_def getFx_def
        verifyFxUsage_def LRU_Get_def LRU_Put_def fxBits_def BitSet_Add_def BitSet_Contains_def
        fx_accept_def)

text \<open>
  C2.  The code at a failing input: asset 9 is created with states for the extension
  indices 0 and 1 and its creation transaction is Accepted.  The first check, for index
  0, succeeds and caches the bitset that holds index 0 alone; the check for index 1
  that follows is answered from the cache with \<open>False\<close>, although the creation
  transaction declares index 1 and the same check on an empty cache succeeds.
\<close>

theorem verifyFxUsage_caches_one_index:
  "fst (verifyFxUsage (chain_of Accepted [state0, state1]) cache_empty 0 9) \<and>
   entries (snd (verifyFxUsage (chain_of Accepted [state0, state1]) cache_empty 0 9)) = [(9, 1)] \<and>
   \<not> fst (verifyFxUsage (chain_of Accepted [state0, state1])
            (snd (verifyFxUsage (chain_of Accepted [state0, state1]) cache_empty 0 9)) 1 9) \<and>
   declaresFx (chain_of Accepted [state0, state1]) 9 1 \<and>
   fst (verifyFxUsage (chain_of Accepted [state0, state1]) cache_empty 1 9)"
  by (simp add: chain_of_def cache_empty_def declaresFx_def state0_def state1_def
        verifyFxUsage_def LRU_Get_def LRU_Put_def fxBits_def BitSet_Add_def BitSet_Contains_def
        assetToFxCacheSize_def)

section \<open>Properties of coin selection\<close>

lemmas ex_defs = kc_all_def utxo_of_def input_of_def owners1_def

lemma Add64_Inr: "Add64 a b = Inr c \<Longrightarrow> unat c = unat a + unat b"
  by (auto simp: Add64_def unat_word_ariths split: if_splits)

lemma Add64_Inl: "Add64 a b = Inl e \<longleftrightarrow> e = errOverflow \<and> 2 ^ 64 \<le> unat a + unat b"
  by (auto simp: Add64_def)

lemma exact_empty: "exact (Map.empty, [], [])"
  by (simp add: exact_def map_get_def sum_asset_def)

lemma exact_step:
  assumes "exact (spent, ins, keys)" and "Add64 (map_get spent a) amt = Inr new"
    and "Amount inp = Some amt"
  shows "exact (spent(a \<mapsto> new), ins @ [\<lparr>in_UTXOID = u, in_Asset = a, In = inp\<rparr>], keys @ [signers])"
  using assms Add64_Inr [OF assms(2)]
  by (auto simp: exact_def map_get_def sum_asset_def amount_of_def)

lemma Spend_scan_exact:
  "exact sel \<Longrightarrow> Spend_scan kc time amounts utxos sel = Inr sel' \<Longrightarrow> exact sel'"
proof (induction kc time amounts utxos sel rule: Spend_scan.induct)
  case (1 kc time amounts sel)
  then show ?case by simp
next
  case (2 kc time amounts utxo utxos amountsSpent ins keys)
  then show ?case
    by (auto simp: Let_def exact_step split: if_splits sum.splits option.splits prod.splits)
qed


lemma Spend_scan_append:
  "Spend_scan kc time amounts (xs @ ys) sel =
     (case Spend_scan kc time amounts xs sel of
        Inl e \<Rightarrow> Inl e
      | Inr sel' \<Rightarrow> Spend_scan kc time amounts ys sel')"
  by (induction kc time amounts xs sel rule: Spend_scan.induct)
     (auto simp: Let_def split: if_splits sum.splits option.splits prod.splits)

lemma SpendAll_scan_exact:
  "exact sel \<Longrightarrow> SpendAll_scan kc time utxos sel = Inr sel' \<Longrightarrow> exact sel'"
proof (induction kc time utxos sel rule: SpendAll_scan.induct)
  case (1 kc time sel)
  then show ?case by simp
next
  case (2 kc time utxo utxos amountsSpent ins keys)
  then show ?case
    by (auto simp: Let_def exact_step split: if_splits sum.splits option.splits prod.splits)
qed

lemma SpendAll_scan_err:
  "SpendAll_scan kc time utxos sel = Inl e \<Longrightarrow> e = errSpendOverflow"
  by (induction kc time utxos sel rule: SpendAll_scan.induct)
     (auto simp: Let_def split: if_splits sum.splits option.splits prod.splits)

lemma SpendAll_scan_append:
  "SpendAll_scan kc time (xs @ ys) sel =
     (case SpendAll_scan kc time xs sel of
        Inl e \<Rightarrow> Inl e
      | Inr sel' \<Rightarrow> SpendAll_scan kc time ys sel')"
  by (induction kc time xs sel rule: SpendAll_scan.induct)
     (auto simp: Let_def split: if_splits sum.splits option.splits prod.splits)



lemma sum_asset_mset: "mset ins' = mset ins \<Longrightarrow> sum_asset ins' a = sum_asset ins a"
proof -
  assume h: "mset ins' = mset ins"
  have "sum_asset xs a = sum_mset (image_mset amount_of (filter_mset (\<lambda>i. in_Asset i = a) (mset xs)))" for xs
    unfolding sum_asset_def by (simp flip: sum_mset_sum_list)
  with h show ?thesis by simp
qed

lemma Sort_inputs:
  assumes "length keys = length ins"
    and "SortTransferableInputsWithSigners ins keys = (ins', keys')"
  shows "mset (zip ins' keys') = mset (zip ins keys)"
    and "mset ins' = mset ins"
    and "length keys' = length ins'"
    and "sorted (map (\<lambda>i. InputSource (in_UTXOID i)) ins')"
proof -
  let ?f = "\<lambda>p :: TransferableInput \<times> PrivateKey list. InputSource (in_UTXOID (fst p))"
  let ?ps = "sort_key ?f (zip ins keys)"
  from assms(2) have i: "ins' = map fst ?ps" and k: "keys' = map snd ?ps"
    by (simp_all add: SortTransferableInputsWithSigners_def Let_def)
  have z: "zip ins' keys' = ?ps" unfolding i k by (simp add: zip_map_fst_snd)
  then show "mset (zip ins' keys') = mset (zip ins keys)" by simp
  have "mset ins' = image_mset fst (mset ?ps)" unfolding i by simp
  also have "\<dots> = mset (map fst (zip ins keys))" by simp
  also have "\<dots> = mset ins" using assms(1) by simp
  finally show "mset ins' = mset ins" .
  show "length keys' = length ins'" unfolding i k by simp
  have "sorted (map ?f ?ps)" by (rule sorted_sort_key)
  then show "sorted (map (\<lambda>i. InputSource (in_UTXOID i)) ins')"
    unfolding i by (simp add: comp_def)
qed





lemma Spend_success:
  assumes "Spend time order utxos kc amounts = (Some spent, Some ins, Some keys, None)"
  shows "\<exists>ins0 keys0.
           Spend_scan kc time amounts utxos (Map.empty, [], []) = Inr (spent, ins0, keys0) \<and>
           Spend_check spent amounts order = None \<and>
           SortTransferableInputsWithSigners ins0 keys0 = (ins, keys) \<and>
           length keys0 = length ins0 \<and>
           (\<forall>a. unat (map_get spent a) = sum_asset ins0 a)"
proof -
  from assms obtain ins0 keys0 where
    sc: "Spend_scan kc time amounts utxos (Map.empty, [], []) = Inr (spent, ins0, keys0)"
    and ch: "Spend_check spent amounts order = None"
    and so: "SortTransferableInputsWithSigners ins0 keys0 = (ins, keys)"
    by (auto simp: Spend_def Let_def split: sum.splits option.splits prod.splits)
  from Spend_scan_exact [OF exact_empty sc]
  have "length keys0 = length ins0" and "\<forall>a. unat (map_get spent a) = sum_asset ins0 a"
    by (simp_all add: exact_def)
  with sc ch so show ?thesis by blast
qed






lemma Spend_scan_overflow_step:
  assumes "map_get spent (Asset utxo) < map_get amounts (Asset utxo)"
    and "kc (Out utxo) time = Inr (inp, signers)" and "Amount inp = Some amt"
    and "2 ^ 64 \<le> unat (map_get spent (Asset utxo)) + unat amt"
  shows "Spend_scan kc time amounts (utxo # post) (spent, ins, keys) = Inl errSpendOverflow"
proof -
  from assms(1) have "\<not> map_get amounts (Asset utxo) \<le> map_get spent (Asset utxo)"
    by simp
  with assms(2-4) show ?thesis by (simp add: Let_def Add64_def)
qed

lemma SpendAll_scan_overflow_step:
  assumes "kc (Out utxo) time = Inr (inp, signers)" and "Amount inp = Some amt"
    and "2 ^ 64 \<le> unat (map_get spent (Asset utxo)) + unat amt"
  shows "SpendAll_scan kc time (utxo # post) (spent, ins, keys) = Inl errSpendOverflow"
  using assms by (simp add: Let_def Add64_def)

lemma SpendAll_success:
  assumes "SpendAll time utxos kc = (Some spent, Some ins, Some keys, None)"
  shows "\<exists>ins0 keys0.
           SpendAll_scan kc time utxos (Map.empty, [], []) = Inr (spent, ins0, keys0) \<and>
           SortTransferableInputsWithSigners ins0 keys0 = (ins, keys) \<and>
           length keys0 = length ins0 \<and>
           (\<forall>a. unat (map_get spent a) = sum_asset ins0 a)"
proof -
  from assms obtain ins0 keys0 where
    sc: "SpendAll_scan kc time utxos (Map.empty, [], []) = Inr (spent, ins0, keys0)"
    and so: "SortTransferableInputsWithSigners ins0 keys0 = (ins, keys)"
    by (auto simp: SpendAll_def Let_def split: sum.splits option.splits prod.splits)
  from SpendAll_scan_exact [OF exact_empty sc]
  have "length keys0 = length ins0" and "\<forall>a. unat (map_get spent a) = sum_asset ins0 a"
    by (simp_all add: exact_def)
  with sc so show ?thesis by blast
qed

text \<open>
  C8.  Let the scan of the UTXOs \<open>pre\<close> have reached the running totals \<open>spent\<close>,
  and let the next UTXO be selected: its asset is not yet funded (in \<open>Spend\<close>), the
  keychain can spend it, and the input has an amount.  If the total of its asset plus
  that amount does not fit in 64 bits, \<open>Spend\<close> and \<open>SpendAll\<close> return
  \<open>errSpendOverflow\<close> and nil for the three other results, whatever UTXOs follow.
  And when \<open>Spend\<close> or \<open>SpendAll\<close> returns amounts, every amount is the exact sum
  of the amounts of the returned inputs of its asset: no addition has wrapped around.
\<close>

theorem Spend_overflow_checked:
  "(Spend_scan kc time amounts pre (Map.empty, [], []) = Inr (spent, ins, keys) \<and>
    map_get spent (Asset utxo) < map_get amounts (Asset utxo) \<and>
    kc (Out utxo) time = Inr (inp, signers) \<and> Amount inp = Some amt \<and>
    2 ^ 64 \<le> unat (map_get spent (Asset utxo)) + unat amt \<longrightarrow>
      Spend time order (pre @ utxo # post) kc amounts = (None, None, None, Some errSpendOverflow)) \<and>
   (SpendAll_scan kc time pre (Map.empty, [], []) = Inr (spent, ins, keys) \<and>
    kc (Out utxo) time = Inr (inp, signers) \<and> Amount inp = Some amt \<and>
    2 ^ 64 \<le> unat (map_get spent (Asset utxo)) + unat amt \<longrightarrow>
      SpendAll time (pre @ utxo # post) kc = (None, None, None, Some errSpendOverflow)) \<and>
   (Spend time order utxos kc amounts = (Some spent', Some ins', Some keys', None) \<longrightarrow>
      (\<forall>a. unat (map_get spent' a) = sum_asset ins' a)) \<and>
   (SpendAll time utxos kc = (Some spent', Some ins', Some keys', None) \<longrightarrow>
      (\<forall>a. unat (map_get spent' a) = sum_asset ins' a))"
proof -
  have a: "Spend time order (pre @ utxo # post) kc amounts = (None, None, None, Some errSpendOverflow)"
    if "Spend_scan kc time amounts pre (Map.empty, [], []) = Inr (spent, ins, keys)"
       "map_get spent (Asset utxo) < map_get amounts (Asset utxo)"
       "kc (Out utxo) time = Inr (inp, signers)" "Amount inp = Some amt"
       "2 ^ 64 \<le> unat (map_get spent (Asset utxo)) + unat amt"
  proof -
    have "Spend_scan kc time amounts (pre @ utxo # post) (Map.empty, [], []) = Inl errSpendOverflow"
      using that(1)
        Spend_scan_overflow_step [where kc = kc and time = time and utxo = utxo and spent = spent
          and amounts = amounts and post = post and ins = ins and keys = keys, OF that(2-5)]
      by (simp add: Spend_scan_append)
    then show ?thesis by (simp add: Spend_def)
  qed
  have b: "SpendAll time (pre @ utxo # post) kc = (None, None, None, Some errSpendOverflow)"
    if "SpendAll_scan kc time pre (Map.empty, [], []) = Inr (spent, ins, keys)"
       "kc (Out utxo) time = Inr (inp, signers)" "Amount inp = Some amt"
       "2 ^ 64 \<le> unat (map_get spent (Asset utxo)) + unat amt"
  proof -
    have "SpendAll_scan kc time (pre @ utxo # post) (Map.empty, [], []) = Inl errSpendOverflow"
      using that(1)
        SpendAll_scan_overflow_step [where kc = kc and time = time and utxo = utxo and spent = spent
          and post = post and ins = ins and keys = keys, OF that(2-4)]
      by (simp add: SpendAll_scan_append)
    then show ?thesis by (simp add: SpendAll_def)
  qed
  have c: "unat (map_get spent' a) = sum_asset ins' a"
    if ok: "Spend time order utxos kc amounts = (Some spent', Some ins', Some keys', None)" for a
  proof -
    from Spend_success [OF ok] obtain ins0 keys0 where
      so: "SortTransferableInputsWithSigners ins0 keys0 = (ins', keys')"
      and len: "length keys0 = length ins0"
      and ex: "\<forall>a. unat (map_get spent' a) = sum_asset ins0 a"
      by blast
    from sum_asset_mset [OF Sort_inputs(2) [OF len so]] ex show ?thesis
      by simp
  qed
  have d: "unat (map_get spent' a) = sum_asset ins' a"
    if ok: "SpendAll time utxos kc = (Some spent', Some ins', Some keys', None)" for a
  proof -
    from SpendAll_success [OF ok] obtain ins0 keys0 where
      so: "SortTransferableInputsWithSigners ins0 keys0 = (ins', keys')"
      and len: "length keys0 = length ins0"
      and ex: "\<forall>a. unat (map_get spent' a) = sum_asset ins0 a"
      by blast
    from sum_asset_mset [OF Sort_inputs(2) [OF len so]] ex show ?thesis
      by simp
  qed
  from a b c d show ?thesis by blast
qed

theorem Spend_overflow_checked_witness:
  "Spend 0 [9] [utxo_of 5 0 9 5, utxo_of 5 1 9 18446744073709551615] kc_all [9 \<mapsto> 10]
     = (None, None, None, Some errSpendOverflow) \<and>
   SpendAll 0 [utxo_of 5 0 9 5, utxo_of 5 1 9 18446744073709551615] kc_all
     = (None, None, None, Some errSpendOverflow)"
  using Spend_overflow_checked [where kc = kc_all and time = 0 and amounts = "[9 \<mapsto> 10]"
          and pre = "[utxo_of 5 0 9 5]" and spent = "[9 \<mapsto> 5]" and ins = "[input_of 5 0 9 5]"
          and keys = "[[1]]" and utxo = "utxo_of 5 1 9 18446744073709551615"
          and inp = "TransferInput 18446744073709551615 [0]" and signers = "[1]"
          and amt = 18446744073709551615 and order = "[9]" and post = "[]"]
  by (simp add: ex_defs map_get_def Add64_def Let_def)






section \<open>Properties of minting\<close>

lemmas mint_defs = Mint_def Mint_check_def Let_def map_get_def delete_def
  SortOperationsWithSigners_def mint_utxo_def codec0_def mint_op_def kc_all_def owners1_def

lemma minted_start: "minted amounts (amounts, [], [])"
  by (simp add: minted_def restrict_map_def)

lemma minted_step:
  assumes "minted amounts0 (amounts, ops, keys)" and "op_Asset op = a"
  shows "minted amounts0 (delete amounts a, ops @ [op], keys @ [signers])"
proof -
  from assms(1) have m: "amounts = amounts0 |` (- op_Asset ` set ops)"
    and l: "length keys = length ops"
    by (simp_all add: minted_def)
  have "delete amounts a = amounts0 |` (- op_Asset ` set (ops @ [op]))"
    unfolding delete_def m using assms(2)
    by (auto simp: restrict_map_def fun_eq_iff)
  with l show ?thesis by (simp add: minted_def)
qed

lemma Mint_scan_minted:
  "minted amounts0 st \<Longrightarrow> minted amounts0 (Mint_scan kc time to utxos st)"
proof (induction kc time to utxos st rule: Mint_scan.induct)
  case (1 kc time to st)
  then show ?case by simp
next
  case (2 kc time to utxo utxos amounts ops keys)
  then show ?case
    by (auto simp: Let_def minted_step split: Output.splits sum.splits Input.splits prod.splits)
qed

lemma Sort_operations:
  assumes "length keys = length ops"
    and "SortOperationsWithSigners ops keys codec = (ops', keys')"
  shows "set ops' = set ops" and "length keys' = length ops'"
proof -
  let ?ps = "sort_key (\<lambda>p. codec (fst p)) (zip ops keys)"
  from assms(2) have i: "ops' = map fst ?ps" and k: "keys' = map snd ?ps"
    by (simp_all add: SortOperationsWithSigners_def Let_def)
  have "set ops' = fst ` set (zip ops keys)" unfolding i by simp
  also have "\<dots> = set (map fst (zip ops keys))" by simp
  also have "\<dots> = set ops" using assms(1) by simp
  finally show "set ops' = set ops" .
  show "length keys' = length ops'" unfolding i k by simp
qed

lemma Mint_check_iff:
  "Mint_check amounts order \<longleftrightarrow> (\<exists>a \<in> set order. \<exists>amt. amounts a = Some amt \<and> 0 < amt)"
  by (auto simp: Mint_check_def list_ex_iff split: option.splits)

text \<open>
  C9.  \<open>Mint\<close> leaves the caller's map of amounts changed.  After a successful call
  the map is the one passed in without the entries of the assets of the returned
  operations, and what is left in it (as far as \<open>range\<close> visits it) are amounts of
  zero.  After a failed call, which returns \<open>errAddressesCantMintAsset\<close>, the map is
  the one passed in without the entries of the assets for which the scan had built an
  operation.
\<close>

theorem Mint_deletes_minted:
  "(Mint time order codec utxos kc amounts to = ((Some ops, Some keys, None), amounts') \<longrightarrow>
      amounts' = amounts |` (- op_Asset ` set ops) \<and>
      (\<forall>a \<in> set order. \<forall>amt. amounts' a = Some amt \<longrightarrow> amt = 0)) \<and>
   (Mint time order codec utxos kc amounts to = ((None, None, Some err), amounts') \<longrightarrow>
      err = errAddressesCantMintAsset \<and>
      (\<exists>ops0 keys0. Mint_scan kc time to utxos (amounts, [], []) = (amounts', ops0, keys0) \<and>
         amounts' = amounts |` (- op_Asset ` set ops0)))"
proof -
  obtain am ops0 keys0 where sc: "Mint_scan kc time to utxos (amounts, [], []) = (am, ops0, keys0)"
    by (cases "Mint_scan kc time to utxos (amounts, [], [])") auto
  from Mint_scan_minted [OF minted_start, of amounts kc time to utxos] sc
  have m: "am = amounts |` (- op_Asset ` set ops0)" and l: "length keys0 = length ops0"
    by (simp_all add: minted_def)
  have a: "amounts' = amounts |` (- op_Asset ` set ops) \<and>
           (\<forall>a \<in> set order. \<forall>amt. amounts' a = Some amt \<longrightarrow> amt = 0)"
    if ok: "Mint time order codec utxos kc amounts to = ((Some ops, Some keys, None), amounts')"
  proof -
    from ok sc have ch: "\<not> Mint_check am order" and am: "amounts' = am"
      and so: "SortOperationsWithSigners ops0 keys0 codec = (ops, keys)"
      by (auto simp: Mint_def Let_def split: if_splits prod.splits)
    from Sort_operations(1) [OF l so] m am
    have "amounts' = amounts |` (- op_Asset ` set ops)" by simp
    moreover from ch am have "\<forall>a \<in> set order. \<forall>amt. amounts' a = Some amt \<longrightarrow> amt = 0"
      by (auto simp: Mint_check_iff word_gt_0)
    ultimately show ?thesis by blast
  qed
  have b: "err = errAddressesCantMintAsset \<and>
      (\<exists>ops0 keys0. Mint_scan kc time to utxos (amounts, [], []) = (amounts', ops0, keys0) \<and>
         amounts' = amounts |` (- op_Asset ` set ops0))"
    if bad: "Mint time order codec utxos kc amounts to = ((None, None, Some err), amounts')"
  proof -
    from bad sc have "err = errAddressesCantMintAsset" and "amounts' = am"
      by (auto simp: Mint_def Let_def split: if_splits prod.splits)
    with sc m show ?thesis by blast
  qed
  from a b show ?thesis by blast
qed

theorem Mint_deletes_minted_witness:
  "fst (Mint 0 [9] codec0 [mint_utxo 5 0 9] kc_all [9 \<mapsto> 5] 1)
     = (Some [mint_op 5 0 9 5 1], Some [[1]], None) \<and>
   snd (Mint 0 [9] codec0 [mint_utxo 5 0 9] kc_all [9 \<mapsto> 5] 1) 9 = None \<and>
   fst (Mint 0 [9, 8] codec0 [mint_utxo 5 0 9] kc_all [9 \<mapsto> 5, 8 \<mapsto> 3] 1)
     = (None, None, Some errAddressesCantMintAsset) \<and>
   snd (Mint 0 [9, 8] codec0 [mint_utxo 5 0 9] kc_all [9 \<mapsto> 5, 8 \<mapsto> 3] 1) 9 = None \<and>
   snd (Mint 0 [9, 8] codec0 [mint_utxo 5 0 9] kc_all [9 \<mapsto> 5, 8 \<mapsto> 3] 1) 8 = Some 3"
proof -
  let ?m1 = "Mint 0 [9] codec0 [mint_utxo 5 0 9] kc_all [9 \<mapsto> 5] 1"
  let ?m2 = "Mint 0 [9, 8] codec0 [mint_utxo 5 0 9] kc_all [9 \<mapsto> 5, 8 \<mapsto> 3] 1"
  have f1: "fst ?m1 = (Some [mint_op 5 0 9 5 1], Some [[1]], None)"
    by (simp add: mint_defs)
  then have e1: "?m1 = ((Some [mint_op 5 0 9 5 1], Some [[1]], None), snd ?m1)"
    by (simp add: prod_eq_iff)
  have f2: "fst ?m2 = (None, None, Some errAddressesCantMintAsset)"
    by (simp add: mint_defs)
  then have e2: "?m2 = ((None, None, Some errAddressesCantMintAsset), snd ?m2)"
    by (simp add: prod_eq_iff)
  from Mint_deletes_minted [where amounts' = "snd ?m1" and ops = "[mint_op 5 0 9 5 1]"
      and keys = "[[1]]" and time = 0 and order = "[9]" and codec = codec0
      and utxos = "[mint_utxo 5 0 9]" and kc = kc_all and amounts = "[9 \<mapsto> 5]" and to = 1] e1
  have "snd ?m1 = [9 \<mapsto> 5] |` (- op_Asset ` set [mint_op 5 0 9 5 1])" by blast
  then have s1: "snd ?m1 9 = None" by (simp add: mint_op_def)
  have s2: "snd ?m2 9 = None" "snd ?m2 8 = Some 3"
    by (simp_all add: mint_defs)
  from f1 s1 f2 s2 show ?thesis by simp
qed


end
